theory Spec2Isabelle
  imports Main "HOL-Library.Multiset" "HOL-Library.AList" "HOL-Library.Signed_Division"
begin

section \<open>Data model\<close>

subsection \<open>Element types\<close>

text \<open>
  Every benchmarked element type (\<^verbatim>\<open>Trivial<N>\<close>, \<^verbatim>\<open>NonTrivial1\<close>, \<^verbatim>\<open>NonTrivial2\<close>)
  has the identity field \<^verbatim>\<open>std::size_t a\<close> and some payload (\<^verbatim>\<open>b\<close>, the padding bytes,
  or \<^verbatim>\<open>data\<close>, the string). The identity is a \<open>nat\<close>; where the source computes a new
  identity in \<^verbatim>\<open>std::size_t\<close> arithmetic the reduction modulo \<open>2 ^ 64\<close> is written out.
  The payload type is a parameter.
\<close>

record 'p Element =
  a :: nat
  b :: 'p


text \<open>
  The braced initialiser \<^verbatim>\<open>{val}\<close> of \<^verbatim>\<open>c.push_back({val})\<close> and
  \<^verbatim>\<open>c.insert(it, {val})\<close>: the identity is \<open>val\<close>, the payload is the element type's
  initial payload \<open>pad\<close> (zero bytes for \<^verbatim>\<open>Trivial<N>\<close>, the fixed string for
  \<^verbatim>\<open>NonTrivial1\<close>).
\<close>

definition braced :: "'p \<Rightarrow> nat \<Rightarrow> 'p Element" where
  "braced pad val = \<lparr>a = val, b = pad\<rparr>"

subsection \<open>Containers and iterators\<close>

text \<open>
  The three container shapes hold a sequence of elements; the sequence is a list, and
  the shape selects the template instantiation (the \<^verbatim>\<open>Sort\<close> specialisation, the static
  members of a policy). An iterator is a position \<open>0 .. length c\<close>; \<open>length c\<close> is
  \<^verbatim>\<open>end(c)\<close>.
\<close>

datatype shape = Vector | List | Deque

datatype error = EraseAtEnd | NullPointer | EmptyResults

text \<open>\<^verbatim>\<open>std::find_if(begin(c), end(c), pred)\<close>: the first position where \<open>pred\<close> holds, else the end.\<close>

fun find_if :: "('e \<Rightarrow> bool) \<Rightarrow> 'e list \<Rightarrow> nat" where
  "find_if pred [] = 0"
| "find_if pred (x # xs) = (if pred x then 0 else Suc (find_if pred xs))"

text \<open>\<^verbatim>\<open>c.insert(it, value)\<close>: inserts before the position; valid for every position including the end.\<close>

definition insert_at :: "nat \<Rightarrow> 'e \<Rightarrow> 'e list \<Rightarrow> 'e list" where
  "insert_at it v c = take it c @ v # drop it c"

text \<open>
  \<^verbatim>\<open>c.erase(it)\<close>: the position must be dereferenceable; erasing at \<^verbatim>\<open>end(c)\<close> has
  undefined behaviour, which the model reports as an error.
\<close>

definition erase :: "nat \<Rightarrow> 'e list \<Rightarrow> error + 'e list" where
  "erase it c = (if it < length c then Inr (take it c @ drop (Suc it) c) else Inl EraseAtEnd)"

section \<open>Removing policy\<close>

subsection \<open>Remove\<close>

text \<open>
  The body of the loop of \<^verbatim>\<open>Remove::run\<close>:
  \<^verbatim>\<open>auto it = std::find_if(begin(c), end(c), [&](...){ return v.a == i; }); c.erase(it);\<close>
\<close>

definition Remove_step :: "'p Element list \<Rightarrow> nat \<Rightarrow> error + 'p Element list" where
  "Remove_step c i = erase (find_if (\<lambda>v. a v = i) c) c"

function Remove_loop :: "nat \<Rightarrow> 'p Element list \<Rightarrow> error + 'p Element list" where
  "Remove_loop i c =
     (if i < 1000
      then (case Remove_step c i of Inl e \<Rightarrow> Inl e | Inr c' \<Rightarrow> Remove_loop (Suc i) c')
      else Inr c)"
  by pat_completeness auto
termination
  by (relation "measure (\<lambda>(i, c). 1000 - i)") auto

declare Remove_loop.simps [simp del]

definition Remove_run :: "'p Element list \<Rightarrow> nat \<Rightarrow> error + 'p Element list" where
  "Remove_run c sz = Remove_loop 0 c"

section \<open>Result sink\<close>

text \<open>
  \<^verbatim>\<open>graphs::graph\<close> and its result triple, as \<^verbatim>\<open>graphs.cpp\<close> uses them
  (\<^verbatim>\<open>graph(name, title, unit)\<close>, \<^verbatim>\<open>results.push_back({serie, group, value})\<close>).
\<close>

record result =
  serie :: string
  group :: string
  value' :: nat

record graph =
  name :: string
  title :: string
  unit_of :: string
  results :: "result list"

text \<open>
  The two globals of \<^verbatim>\<open>graphs.cpp\<close>. The graphs are shared objects: \<open>store\<close> holds
  every object \<^verbatim>\<open>std::make_shared\<close> has allocated, a pointer is an index into it, and the
  null pointer is \<open>None\<close>. \<open>console\<close> is the text written to \<^verbatim>\<open>std::cout\<close>, by line.
\<close>

record graphs_state =
  store :: "graph list"
  current_graph :: "nat option"
  all_graphs :: "nat list"
  console :: "string list"

definition initial_graphs :: graphs_state where
  "initial_graphs = \<lparr>store = [], current_graph = None, all_graphs = [], console = []\<rparr>"

text \<open>Decimal digits, as \<^verbatim>\<open>operator<<\<close> and \<^verbatim>\<open>std::to_string\<close> print a number.\<close>

fun digits :: "nat \<Rightarrow> string" where
  "digits n = (if n < 10 then [char_of (48 + n)] else digits (n div 10) @ [char_of (48 + n mod 10)])"

declare digits.simps [simp del]

definition to_string :: "int \<Rightarrow> string" where
  "to_string i = (if i < 0 then CHR ''-'' # digits (nat (- i)) else digits (nat i))"

definition new_graph :: "string \<Rightarrow> string \<Rightarrow> string \<Rightarrow> graphs_state \<Rightarrow> graphs_state" where
  "new_graph graph_name graph_title unit st =
     (let p = length (store st) in
      st\<lparr>store := store st @ [\<lparr>name = graph_name, title = graph_title, unit_of = unit, results = []\<rparr>],
         current_graph := Some p,
         all_graphs := all_graphs st @ [p],
         console := console st @ [''Start '' @ graph_name]\<rparr>)"

definition new_result :: "string \<Rightarrow> string \<Rightarrow> nat \<Rightarrow> graphs_state \<Rightarrow> error + graphs_state" where
  "new_result serie' group' value st =
     (case current_graph st of
        None \<Rightarrow> Inl NullPointer
      | Some p \<Rightarrow>
          Inr (st\<lparr>store := (store st)[p := (store st ! p)
                     \<lparr>results := results (store st ! p) @ [\<lparr>serie = serie', group = group', value' = value\<rparr>]\<rparr>],
                  console := console st @ [serie' @ '':'' @ group' @ '':'' @ digits value]\<rparr>))"




section \<open>Setup policies\<close>

subsection \<open>FilledRandom\<close>

text \<open>
  \<^verbatim>\<open>static std::vector<size_t> v\<close> is a static data member of the class template
  \<^verbatim>\<open>FilledRandom<Container>\<close>: every instantiation has a vector of its own. For one
  element type there is one vector for each container shape, and the state of the policy
  is a function from shapes to vectors, all empty when the program starts.
\<close>

type_synonym cache = "shape \<Rightarrow> nat list"

definition initial_cache :: cache where
  "initial_cache = (\<lambda>C. [])"

text \<open>\<^verbatim>\<open>v.clear(); v.resize(size); std::iota(begin(v), end(v), 0);\<close>\<close>

definition iota :: "nat \<Rightarrow> nat list" where
  "iota sz = [0..<sz]"

text \<open>
  The first half of \<^verbatim>\<open>FilledRandom::make\<close> (``prepare randomized data''). The library
  call \<^verbatim>\<open>std::shuffle(begin(v), end(v), std::mt19937())\<close> is the parameter \<open>shuffle\<close>: the
  generator is a temporary with the default seed at every call, so the result is a
  function of the range alone.
\<close>

definition FilledRandom_prepare :: "(nat list \<Rightarrow> nat list) \<Rightarrow> shape \<Rightarrow> nat \<Rightarrow> cache \<Rightarrow> cache" where
  "FilledRandom_prepare shuffle C sz v =
     (if length (v C) \<noteq> sz then v(C := shuffle (iota sz)) else v)"

text \<open>The second half (``fill with randomized data''): \<^verbatim>\<open>for(auto val : v) c.push_back({val});\<close>\<close>

fun push_back_all :: "'p \<Rightarrow> nat list \<Rightarrow> 'p Element list \<Rightarrow> 'p Element list" where
  "push_back_all pad [] c = c"
| "push_back_all pad (val # vs) c = push_back_all pad vs (c @ [braced pad val])"

definition FilledRandom_make ::
  "(nat list \<Rightarrow> nat list) \<Rightarrow> 'p \<Rightarrow> shape \<Rightarrow> nat \<Rightarrow> cache \<Rightarrow> 'p Element list \<times> cache" where
  "FilledRandom_make shuffle pad C sz v =
     (let v' = FilledRandom_prepare shuffle C sz v
      in (push_back_all pad (v' C) [], v'))"

text \<open>
  What the C++ standard requires of \<^verbatim>\<open>std::shuffle\<close>: the range is permuted.
\<close>

definition permutes :: "(nat list \<Rightarrow> nat list) \<Rightarrow> bool" where
  "permutes shuffle = (\<forall>xs. mset (shuffle xs) = mset xs)"

text \<open>The states of the vectors the program can reach: all empty, then any calls of \<^verbatim>\<open>make\<close>.\<close>

inductive cache_reachable :: "(nat list \<Rightarrow> nat list) \<Rightarrow> cache \<Rightarrow> bool"
  for shuffle :: "nat list \<Rightarrow> nat list" where
  start: "cache_reachable shuffle initial_cache"
| made: "cache_reachable shuffle v \<Longrightarrow> cache_reachable shuffle (FilledRandom_prepare shuffle C sz v)"

section \<open>Inserting policies\<close>

subsection \<open>Insert\<close>

text \<open>
  The body of the loop of \<^verbatim>\<open>Insert::run\<close>:
  \<^verbatim>\<open>auto it = std::find_if(begin(c), end(c), [&](...){ return v.a == i; }); c.insert(it, {size + i});\<close>
  \<^verbatim>\<open>size + i\<close> is an addition of \<^verbatim>\<open>std::size_t\<close>.
\<close>

definition Insert_step :: "'p \<Rightarrow> nat \<Rightarrow> 'p Element list \<Rightarrow> nat \<Rightarrow> 'p Element list" where
  "Insert_step pad sz c i =
     (let it = find_if (\<lambda>v. a v = i) c
      in insert_at it (braced pad ((sz + i) mod 2 ^ 64)) c)"

function Insert_loop :: "'p \<Rightarrow> nat \<Rightarrow> nat \<Rightarrow> 'p Element list \<Rightarrow> 'p Element list" where
  "Insert_loop pad sz i c =
     (if i < 1000 then Insert_loop pad sz (Suc i) (Insert_step pad sz c i) else c)"
  by pat_completeness auto
termination
  by (relation "measure (\<lambda>(pad, sz, i, c). 1000 - i)") auto

declare Insert_loop.simps [simp del]

definition Insert_run :: "'p \<Rightarrow> 'p Element list \<Rightarrow> nat \<Rightarrow> 'p Element list" where
  "Insert_run pad c sz = Insert_loop pad sz 0 c"

text \<open>
  The specification's wording of one operation, as a function of its own: the new
  element goes immediately before the first element whose identity field equals \<open>i\<close>,
  and at the end of the sequence if there is none.
\<close>

fun spec_insert_before_first :: "nat \<Rightarrow> 'p Element \<Rightarrow> 'p Element list \<Rightarrow> 'p Element list" where
  "spec_insert_before_first i new [] = [new]"
| "spec_insert_before_first i new (x # xs) =
     (if a x = i then new # x # xs else x # spec_insert_before_first i new xs)"

text \<open>The specification's Randomized-Insert: the 1000 operations for \<open>i = 0 .. 999\<close>, in this order.\<close>

definition spec_Randomized_Insert :: "'p \<Rightarrow> 'p Element list \<Rightarrow> nat \<Rightarrow> 'p Element list" where
  "spec_Randomized_Insert pad c n =
     foldl (\<lambda>d i. spec_insert_before_first i (braced pad (n + i)) d) c [0..<1000]"

subsection \<open>RandomSortedInsert\<close>

text \<open>
  The body of the loop of \<^verbatim>\<open>RandomSortedInsert::run\<close> after the draw:
  \<^verbatim>\<open>c.insert(std::find_if(begin(c), end(c), [&](...){ return v.a >= val; }), {val});\<close>
\<close>

definition RandomSortedInsert_step :: "'p \<Rightarrow> 'p Element list \<Rightarrow> nat \<Rightarrow> 'p Element list" where
  "RandomSortedInsert_step pad c val =
     insert_at (find_if (\<lambda>v. a v \<ge> val) c) (braced pad val) c"

text \<open>
  \<^verbatim>\<open>auto val = distribution(generator);\<close> draws a value and advances the static
  generator: \<open>distribution\<close> is a parameter that maps a generator state to the value and
  the next state, and the generator state is passed through the loop.
\<close>

function RandomSortedInsert_loop ::
  "('g \<Rightarrow> nat \<times> 'g) \<Rightarrow> 'p \<Rightarrow> nat \<Rightarrow> nat \<Rightarrow> 'p Element list \<Rightarrow> 'g \<Rightarrow> 'p Element list \<times> 'g" where
  "RandomSortedInsert_loop distribution pad sz i c generator =
     (if i < sz
      then (case distribution generator of
              (val, generator') \<Rightarrow>
                RandomSortedInsert_loop distribution pad sz (Suc i)
                  (RandomSortedInsert_step pad c val) generator')
      else (c, generator))"
  by pat_completeness auto
termination
  by (relation "measure (\<lambda>(distribution, pad, sz, i, c, generator). sz - i)") auto

declare RandomSortedInsert_loop.simps [simp del]

definition RandomSortedInsert_run ::
  "('g \<Rightarrow> nat \<times> 'g) \<Rightarrow> 'p \<Rightarrow> 'p Element list \<Rightarrow> nat \<Rightarrow> 'g \<Rightarrow> 'p Element list \<times> 'g" where
  "RandomSortedInsert_run distribution pad c sz generator =
     RandomSortedInsert_loop distribution pad sz 0 c generator"

section \<open>Sorting\<close>

text \<open>
  \<^verbatim>\<open>std::sort\<close> and \<^verbatim>\<open>std::list::sort\<close> are library functions and parameters of the
  model, applied to the comparison they are called with. The C++ standard requires of
  both that the result is a permutation of the range and sorted with respect to the
  comparison: no later element compares less than an earlier one.
\<close>

definition sorts_by :: "('e \<Rightarrow> 'e \<Rightarrow> bool) \<Rightarrow> ('e list \<Rightarrow> 'e list) \<Rightarrow> bool" where
  "sorts_by cmp srt = (\<forall>xs. mset (srt xs) = mset xs \<and> sorted_wrt (\<lambda>x y. \<not> cmp y x) (srt xs))"



subsection \<open>Sort\<close>


section \<open>Rendering\<close>

text \<open>
  \<^verbatim>\<open>compute_values\<close>: \<^verbatim>\<open>results[result.group][result.serie] = result.value\<close> for every
  result in order. The nested \<^verbatim>\<open>std::unordered_map\<close> is a nested association list with
  unique keys; \<^verbatim>\<open>operator[]\<close> inserts an empty inner map for a new key. The iteration
  order of an unordered map is unspecified; the model lists the keys in the order of
  their first insertion.
\<close>

definition compute_values :: "graph \<Rightarrow> (string \<times> (string \<times> nat) list) list" where
  "compute_values g =
     foldl (\<lambda>res r. AList.update_with_aux [] (group r) (AList.update (serie r) (value' r)) res)
       [] (results g)"

text \<open>
  \<^verbatim>\<open>numeric_cmp\<close>: \<^verbatim>\<open>return atoi(lhs.c_str()) < atoi(rhs.c_str());\<close> with the C library's
  \<^verbatim>\<open>atoi\<close> as a parameter.
\<close>

definition numeric_cmp :: "(string \<Rightarrow> int) \<Rightarrow> string \<Rightarrow> string \<Rightarrow> bool" where
  "numeric_cmp atoi lhs rhs = (atoi lhs < atoi rhs)"

text \<open>
  The data table that \<^verbatim>\<open>graphs::output\<close> writes for one graph: the header
  \<^verbatim>\<open>['x', 'serie', ...]\<close> from the first entry of the map, then for every group, in the
  order of the sorted \<^verbatim>\<open>groups\<close>, the row \<^verbatim>\<open>['group', value, ...]\<close>. A table is the header
  and the rows, a row the group label and its values. With no result in the graph
  \<^verbatim>\<open>results.begin()->second\<close> dereferences the end iterator.
\<close>

type_synonym table = "string list \<times> (string \<times> nat list) list"

definition output_table ::
  "((string \<Rightarrow> string \<Rightarrow> bool) \<Rightarrow> string list \<Rightarrow> string list) \<Rightarrow> (string \<Rightarrow> int) \<Rightarrow> graph \<Rightarrow> error + table" where
  "output_table std_sort atoi g =
     (let res = compute_values g in
      case res of
        [] \<Rightarrow> Inl EmptyResults
      | first # _ \<Rightarrow>
          (let head = ''x'' # map fst (snd first);
               groups = std_sort (numeric_cmp atoi) (map fst res);
               rows = map (\<lambda>group_title.
                          (group_title,
                           map snd (case map_of res group_title of None \<Rightarrow> [] | Some series \<Rightarrow> series)))
                        groups
           in Inr (head, rows)))"

text \<open>The first loop of the branch \<^verbatim>\<open>output == Output::GOOGLE\<close>: one table for every graph of \<^verbatim>\<open>all_graphs\<close>.\<close>

fun output_tables ::
  "((string \<Rightarrow> string \<Rightarrow> bool) \<Rightarrow> string list \<Rightarrow> string list) \<Rightarrow> (string \<Rightarrow> int) \<Rightarrow> graph list \<Rightarrow> error + table list" where
  "output_tables std_sort atoi [] = Inr []"
| "output_tables std_sort atoi (g # gs) =
     (case output_table std_sort atoi g of
        Inl e \<Rightarrow> Inl e
      | Inr t \<Rightarrow> (case output_tables std_sort atoi gs of Inl e \<Rightarrow> Inl e | Inr ts \<Rightarrow> Inr (t # ts)))"

definition output_GOOGLE ::
  "((string \<Rightarrow> string \<Rightarrow> bool) \<Rightarrow> string list \<Rightarrow> string list) \<Rightarrow> (string \<Rightarrow> int) \<Rightarrow> graphs_state \<Rightarrow> error + table list" where
  "output_GOOGLE std_sort atoi st = output_tables std_sort atoi (map (\<lambda>p. store st ! p) (all_graphs st))"

text \<open>
  The value of the C library's \<^verbatim>\<open>atoi\<close> where it is defined (the number fits \<^verbatim>\<open>int\<close>):
  white space is skipped, a sign is read, then decimal digits up to the first other
  character.
\<close>

definition isspace :: "char \<Rightarrow> bool" where
  "isspace ch = (ch \<in> set [CHR '' '', CHR 0x09, CHR 0x0A, CHR 0x0B, CHR 0x0C, CHR 0x0D])"

definition isdigit :: "char \<Rightarrow> bool" where
  "isdigit ch = (48 \<le> (of_char ch :: nat) \<and> (of_char ch :: nat) \<le> 57)"

fun read_digits :: "int \<Rightarrow> string \<Rightarrow> int" where
  "read_digits acc [] = acc"
| "read_digits acc (ch # s) =
     (if isdigit ch then read_digits (10 * acc + (of_char ch - 48)) s else acc)"

definition c_atoi :: "string \<Rightarrow> int" where
  "c_atoi s =
     (case dropWhile isspace s of
        [] \<Rightarrow> 0
      | ch # rest \<Rightarrow>
          if ch = CHR ''-'' then - read_digits 0 rest
          else if ch = CHR ''+'' then read_digits 0 rest
          else read_digits 0 (ch # rest))"

section \<open>Benchmark engine\<close>

text \<open>\<^verbatim>\<open>static const std::size_t REPEAT = 2;\<close>\<close>

definition REPEAT :: nat where
  "REPEAT = 2"

text \<open>
  \<^verbatim>\<open>Clock::duration\<close> and the difference of two \<^verbatim>\<open>Clock::time_point\<close>s count clock
  ticks in a signed 64-bit integer; \<open>int64\<close> is the reduction to its range.
\<close>

definition int64 :: "int \<Rightarrow> int" where
  "int64 x = (x + 2 ^ 63) mod 2 ^ 64 - 2 ^ 63"

text \<open>The conversion of the \<^verbatim>\<open>int\<close> of the size list to \<^verbatim>\<open>std::size_t\<close>.\<close>

definition size_t :: "int \<Rightarrow> nat" where
  "size_t i = nat (i mod 2 ^ 64)"

text \<open>
  The loop \<^verbatim>\<open>for(std::size_t i=0; i<REPEAT; ++i)\<close> of \<^verbatim>\<open>bench\<close>. The parameters are the
  create policy \<open>create\<close> and the composed test policies \<open>run_tests\<close>, both with the static
  state \<open>s\<close> of the policies passed through, and \<open>now\<close>, the readings of
  \<^verbatim>\<open>Clock::now()\<close> in the order of the calls; \<open>k\<close> counts the readings taken. The state of
  the loop is the policies' state, \<open>k\<close> and the local \<^verbatim>\<open>duration\<close>.
\<close>

function bench_trials ::
  "(nat \<Rightarrow> 's \<Rightarrow> 'c \<times> 's) \<Rightarrow> ('c \<Rightarrow> nat \<Rightarrow> 's \<Rightarrow> 'c \<times> 's) \<Rightarrow> (nat \<Rightarrow> int) \<Rightarrow> nat \<Rightarrow> nat \<Rightarrow>
   's \<times> nat \<times> int \<Rightarrow> 's \<times> nat \<times> int" where
  "bench_trials create run_tests now sz i (s, k, duration) =
     (if i < REPEAT
      then (case create sz s of
              (container, s1) \<Rightarrow>
                (let t0 = now k in
                 case run_tests container sz s1 of
                   (container', s2) \<Rightarrow>
                     (let t1 = now (Suc k) in
                      bench_trials create run_tests now sz (Suc i)
                        (s2, Suc (Suc k), int64 (duration + int64 (t1 - t0))))))
      else (s, k, duration))"
  by pat_completeness auto
termination
  by (relation "measure (\<lambda>(create, run_tests, now, sz, i, w). REPEAT - i)") auto

declare bench_trials.simps [simp del]

text \<open>
  The value passed to \<^verbatim>\<open>graphs::new_result\<close>:
  \<^verbatim>\<open>std::chrono::duration_cast<DurationUnit>(duration).count() / REPEAT\<close>. The cast divides
  the tick count by the ticks of one unit, \<open>per_unit\<close> (1000 for microseconds and 1000000
  for milliseconds on a nanosecond clock), truncating towards zero; the division by the
  unsigned \<^verbatim>\<open>REPEAT\<close> converts the count to \<^verbatim>\<open>std::size_t\<close> first.
\<close>

definition emitted_value :: "int \<Rightarrow> int \<Rightarrow> nat" where
  "emitted_value per_unit duration = nat ((duration sdiv per_unit) mod 2 ^ 64) div REPEAT"

text \<open>
  The body of the loop over the sizes. \<^verbatim>\<open>Clock::duration duration;\<close> has no initialiser:
  the defaulted default constructor of \<^verbatim>\<open>std::chrono::duration\<close> leaves the tick count
  indeterminate. \<open>indeterminate\<close> is the value the object happens to hold. The state is
  the policies' state, the number of clock readings and the result sink.
\<close>

definition bench_size ::
  "(nat \<Rightarrow> 's \<Rightarrow> 'c \<times> 's) \<Rightarrow> ('c \<Rightarrow> nat \<Rightarrow> 's \<Rightarrow> 'c \<times> 's) \<Rightarrow> (nat \<Rightarrow> int) \<Rightarrow> int \<Rightarrow> string \<Rightarrow>
   int \<Rightarrow> int \<Rightarrow> 's \<times> nat \<times> graphs_state \<Rightarrow> error + 's \<times> nat \<times> graphs_state" where
  "bench_size create run_tests now per_unit type sz indeterminate w =
     (case w of (s, k, sink) \<Rightarrow>
        (case bench_trials create run_tests now (size_t sz) 0 (s, k, indeterminate) of
           (s', k', duration) \<Rightarrow>
             (case new_result type (to_string sz) (emitted_value per_unit duration) sink of
                Inl e \<Rightarrow> Inl e
              | Inr sink' \<Rightarrow> Inr (s', k', sink'))))"

text \<open>
  \<^verbatim>\<open>bench\<close>: the loop \<^verbatim>\<open>for(auto size : sizes)\<close>; \<open>indeterminate j\<close> is the value the
  uninitialised \<^verbatim>\<open>duration\<close> holds in the \<open>j\<close>-th iteration.
\<close>

fun bench ::
  "(nat \<Rightarrow> 's \<Rightarrow> 'c \<times> 's) \<Rightarrow> ('c \<Rightarrow> nat \<Rightarrow> 's \<Rightarrow> 'c \<times> 's) \<Rightarrow> (nat \<Rightarrow> int) \<Rightarrow> int \<Rightarrow> string \<Rightarrow>
   int list \<Rightarrow> (nat \<Rightarrow> int) \<Rightarrow> nat \<Rightarrow> 's \<times> nat \<times> graphs_state \<Rightarrow> error + 's \<times> nat \<times> graphs_state" where
  "bench create run_tests now per_unit type [] indeterminate j w = Inr w"
| "bench create run_tests now per_unit type (sz # sizes) indeterminate j w =
     (case bench_size create run_tests now per_unit type sz (indeterminate j) w of
        Inl e \<Rightarrow> Inl e
      | Inr w' \<Rightarrow> bench create run_tests now per_unit type sizes indeterminate (Suc j) w')"

text \<open>The create policy \<^verbatim>\<open>Empty\<close> and the test policy \<^verbatim>\<open>NoOp\<close>, with no static state.\<close>

definition Empty_make :: "nat \<Rightarrow> unit \<Rightarrow> 'e list \<times> unit" where
  "Empty_make sz s = ([], s)"

definition NoOp_run :: "'e list \<Rightarrow> nat \<Rightarrow> unit \<Rightarrow> 'e list \<times> unit" where
  "NoOp_run c sz s = (c, s)"

section \<open>Verification\<close>

subsection \<open>The result sink\<close>







subsection \<open>Remove\<close>

lemma find_if_le_length: "find_if pred c \<le> length c"
  by (induction c) auto

lemma find_if_absent: "(\<forall>x \<in> set c. \<not> pred x) \<Longrightarrow> find_if pred c = length c"
  by (induction c) auto

lemma find_if_present: "\<exists>x \<in> set c. pred x \<Longrightarrow> find_if pred c < length c"
  by (induction c) auto

lemma find_if_takeWhile: "find_if pred c = length (takeWhile (\<lambda>x. \<not> pred x) c)"
  by (induction c) auto

lemma Remove_step_absent:
  "(\<forall>x \<in> set c. a x \<noteq> i) \<Longrightarrow> Remove_step c i = Inl EraseAtEnd"
  by (simp add: Remove_step_def erase_def find_if_absent)

text \<open>
  C2. The step of \<^verbatim>\<open>Remove::run\<close> on a container that has no element with identity
  \<open>i\<close>: \<^verbatim>\<open>find_if\<close> returns \<^verbatim>\<open>end(c)\<close> and \<^verbatim>\<open>c.erase(end(c))\<close> is called; the step is not
  a no-op, and neither is the run.
\<close>

theorem Remove_step_absent_erases_at_end:
  "Remove_step [\<lparr>a = 5, b = ()\<rparr>] 0 = Inl EraseAtEnd
   \<and> Remove_run [\<lparr>a = 5, b = ()\<rparr>] 1 = Inl EraseAtEnd
   \<and> Remove_step [\<lparr>a = 5, b = ()\<rparr>] 0 \<noteq> Inr [\<lparr>a = 5, b = ()\<rparr>]"
  by (simp add: Remove_run_def Remove_loop.simps [of 0] Remove_step_def erase_def)

subsection \<open>FilledRandom\<close>

lemma push_back_all_map: "push_back_all pad vs c = c @ map (braced pad) vs"
  by (induction vs arbitrary: c) auto

lemma FilledRandom_make_fst:
  "map a (fst (FilledRandom_make shuffle pad C sz v)) = FilledRandom_prepare shuffle C sz v C"
  by (simp add: FilledRandom_make_def Let_def push_back_all_map o_def braced_def)

lemma FilledRandom_make_snd:
  "snd (FilledRandom_make shuffle pad C sz v) = FilledRandom_prepare shuffle C sz v"
  by (simp add: FilledRandom_make_def Let_def)

lemma permutes_length: "permutes shuffle \<Longrightarrow> length (shuffle xs) = length xs"
  unfolding permutes_def by (metis size_mset)

lemma cache_reachable_shuffled:
  assumes "permutes shuffle" and "cache_reachable shuffle v"
  shows "v C = shuffle (iota (length (v C)))"
  using assms(2)
proof (induction arbitrary: C rule: cache_reachable.induct)
  case start
  have "length (shuffle []) = 0"
    using permutes_length [OF assms(1), of "[]"] by simp
  then show ?case by (simp add: initial_cache_def iota_def)
next
  case (made v D sz)
  show ?case
    using made.IH [of C] permutes_length [OF assms(1), of "iota sz"]
    by (simp add: FilledRandom_prepare_def iota_def)
qed

lemma prepare_shuffled:
  assumes "permutes shuffle" and "cache_reachable shuffle v"
  shows "FilledRandom_prepare shuffle C sz v C = shuffle (iota sz)"
  using cache_reachable_shuffled [OF assms, of C]
  by (auto simp: FilledRandom_prepare_def)

lemma count_list_upt: "count_list [0..<n] k = (if k < n then 1 else 0)"
  by (induction n) auto

lemma permutes_rev: "permutes rev"
  by (simp add: permutes_def)

text \<open>
  C3. For every size \<open>n\<close>, whatever calls of \<^verbatim>\<open>make\<close> came before and whatever the
  element types, the identity values of the containers that \<^verbatim>\<open>FilledRandom::make\<close>
  builds for two shapes are the same sequence, element for element (the shuffled
  \<open>0 .. n - 1\<close>), hence also the same multiset.
\<close>

theorem FilledRandom_same_sequence_for_all_shapes:
  assumes "permutes shuffle"
    and "cache_reachable shuffle v1" and "cache_reachable shuffle v2"
  shows "map a (fst (FilledRandom_make shuffle pad1 C1 n v1))
           = map a (fst (FilledRandom_make shuffle pad2 C2 n v2))
       \<and> map a (fst (FilledRandom_make shuffle pad1 C1 n v1)) = shuffle (iota n)
       \<and> mset (map a (fst (FilledRandom_make shuffle pad1 C1 n v1)))
           = mset (map a (fst (FilledRandom_make shuffle pad2 C2 n v2)))"
proof -
  have 1: "map a (fst (FilledRandom_make shuffle pad1 C1 n v1)) = shuffle (iota n)"
    by (simp only: FilledRandom_make_fst prepare_shuffled [OF assms(1) assms(2)])
  have 2: "map a (fst (FilledRandom_make shuffle pad2 C2 n v2)) = shuffle (iota n)"
    by (simp only: FilledRandom_make_fst prepare_shuffled [OF assms(1) assms(3)])
  show ?thesis
    by (simp add: 1 2)
qed

theorem FilledRandom_same_sequence_for_all_shapes_witness:
  "permutes rev
   \<and> cache_reachable rev initial_cache
   \<and> cache_reachable rev (FilledRandom_prepare rev Vector 3 initial_cache)
   \<and> map a (fst (FilledRandom_make rev () Vector 3 initial_cache))
       = map a (fst (FilledRandom_make rev (0::nat) List 3 (FilledRandom_prepare rev Vector 3 initial_cache)))
   \<and> map a (fst (FilledRandom_make rev () Vector 3 initial_cache)) = [2, 1, 0]"
proof -
  have r1: "cache_reachable rev initial_cache"
    by (rule cache_reachable.start)
  have r2: "cache_reachable rev (FilledRandom_prepare rev Vector 3 initial_cache)"
    by (rule cache_reachable.made) (rule r1)
  have i: "rev (iota 3) = [2, 1, 0]"
    by (simp add: iota_def upt_rec)
  note t = FilledRandom_same_sequence_for_all_shapes
             [OF permutes_rev r1 r2, of "()" Vector 3 "0::nat" List]
  from t have e: "map a (fst (FilledRandom_make rev () Vector 3 initial_cache))
       = map a (fst (FilledRandom_make rev (0::nat) List 3 (FilledRandom_prepare rev Vector 3 initial_cache)))"
    by (rule conjunct1)
  from t have s: "map a (fst (FilledRandom_make rev () Vector 3 initial_cache)) = rev (iota 3)"
    by blast
  from permutes_rev r1 r2 e s [unfolded i] show ?thesis
    by (intro conjI)
qed

text \<open>
  C4. In every state the program reaches, after \<^verbatim>\<open>FilledRandom::make\<close> for size \<open>n\<close>
  the vector of the instantiation, which is the sequence of the identity fields of the
  container built, has length \<open>n\<close> and is a permutation of \<open>0 .. n - 1\<close>: every value
  below \<open>n\<close> occurs exactly once and no other value occurs.
\<close>

theorem FilledRandom_is_permutation:
  assumes "permutes shuffle" and "cache_reachable shuffle v"
  shows "map a (fst (FilledRandom_make shuffle pad C n v)) = snd (FilledRandom_make shuffle pad C n v) C
       \<and> mset (snd (FilledRandom_make shuffle pad C n v) C) = mset [0..<n]
       \<and> length (snd (FilledRandom_make shuffle pad C n v) C) = n
       \<and> (\<forall>k. count_list (snd (FilledRandom_make shuffle pad C n v) C) k = (if k < n then 1 else 0))"
proof -
  have v': "snd (FilledRandom_make shuffle pad C n v) C = shuffle (iota n)"
    by (simp only: FilledRandom_make_snd prepare_shuffled [OF assms])
  have m: "mset (shuffle (iota n)) = mset [0..<n]"
    using assms(1) by (simp add: permutes_def iota_def)
  have l: "length (shuffle (iota n)) = n"
    using permutes_length [OF assms(1), of "iota n"] by (simp add: iota_def)
  have c: "count_list (shuffle (iota n)) k = (if k < n then 1 else 0)" for k
  proof -
    have "count_list (shuffle (iota n)) k = count (mset (shuffle (iota n))) k"
      by (simp add: count_mset)
    also have "\<dots> = count_list [0..<n] k"
      by (simp only: m count_mset)
    finally show ?thesis
      by (simp add: count_list_upt)
  qed
  have f: "map a (fst (FilledRandom_make shuffle pad C n v)) = shuffle (iota n)"
    by (simp only: FilledRandom_make_fst prepare_shuffled [OF assms])
  show ?thesis
    unfolding v' f using m l c by simp
qed

theorem FilledRandom_is_permutation_witness:
  "permutes rev \<and> cache_reachable rev initial_cache
   \<and> mset (snd (FilledRandom_make rev () Deque 4 initial_cache) Deque) = mset [0..<4]
   \<and> snd (FilledRandom_make rev () Deque 4 initial_cache) Deque = [3, 2, 1, 0]
   \<and> (\<forall>k. count_list (snd (FilledRandom_make rev () Deque 4 initial_cache) Deque) k
            = (if k < 4 then 1 else 0))"
proof -
  have e: "snd (FilledRandom_make rev () Deque 4 initial_cache) Deque = [3, 2, 1, 0]"
    by (simp add: FilledRandom_make_def FilledRandom_prepare_def initial_cache_def iota_def upt_rec)
  show ?thesis
    using FilledRandom_is_permutation [OF permutes_rev cache_reachable.start, of "()" Deque 4]
          permutes_rev cache_reachable.start [of rev] e
    by simp
qed

text \<open>
  C5, as stated, fails: the vector is not shared by the container shapes. After the
  permutation of size 3 has been generated for the vector shape, the vector of the list
  shape is still empty, and \<^verbatim>\<open>make\<close> for the list shape and the same size generates it
  again.
\<close>

theorem FilledRandom_cache_not_shared_between_shapes:
  "snd (FilledRandom_make rev () Vector 3 initial_cache) Vector = [2, 1, 0]
   \<and> snd (FilledRandom_make rev () Vector 3 initial_cache) List = []
   \<and> snd (FilledRandom_make rev () List 3 (snd (FilledRandom_make rev () Vector 3 initial_cache))) List
       \<noteq> snd (FilledRandom_make rev () Vector 3 initial_cache) List"
  by (simp add: FilledRandom_make_def FilledRandom_prepare_def initial_cache_def iota_def upt_rec)

text \<open>
  C5, amended. Every instantiation \<^verbatim>\<open>FilledRandom<Container>\<close> caches its own vector.
  When \<^verbatim>\<open>make\<close> is called with the size of the vector of its shape, no vector changes
  and the container is built from the cached one; otherwise the vector of this shape, and
  no other, is replaced by the shuffled \<open>0 .. n - 1\<close>. A repetition (a second call for the
  same shape and size) changes nothing.
\<close>

theorem FilledRandom_cache_per_shape:
  assumes "permutes shuffle"
  shows "(length (v C) = n \<longrightarrow>
            snd (FilledRandom_make shuffle pad C n v) = v
          \<and> map a (fst (FilledRandom_make shuffle pad C n v)) = v C)
       \<and> (length (v C) \<noteq> n \<longrightarrow>
            snd (FilledRandom_make shuffle pad C n v) = v(C := shuffle (iota n)))
       \<and> (\<forall>D. D \<noteq> C \<longrightarrow> snd (FilledRandom_make shuffle pad C n v) D = v D)
       \<and> snd (FilledRandom_make shuffle pad C n (snd (FilledRandom_make shuffle pad C n v)))
           = snd (FilledRandom_make shuffle pad C n v)
       \<and> fst (FilledRandom_make shuffle pad C n (snd (FilledRandom_make shuffle pad C n v)))
           = fst (FilledRandom_make shuffle pad C n v)"
proof -
  have l: "length (shuffle (iota n)) = n"
    using permutes_length [OF assms, of "iota n"] by (simp add: iota_def)
  show ?thesis
    using l
    by (auto simp: FilledRandom_make_def FilledRandom_prepare_def Let_def push_back_all_map
          o_def braced_def)
qed

theorem FilledRandom_cache_per_shape_witness:
  "permutes rev
   \<and> length ((initial_cache (Vector := [1, 0])) Vector) = 2
   \<and> length ((initial_cache (Vector := [1, 0])) List) \<noteq> 2
   \<and> Vector \<noteq> List
   \<and> snd (FilledRandom_make rev () Vector 2 (initial_cache (Vector := [1, 0])))
       = initial_cache (Vector := [1, 0])
   \<and> snd (FilledRandom_make rev () List 2 (initial_cache (Vector := [1, 0])))
       = (initial_cache (Vector := [1, 0])) (List := rev (iota 2))
   \<and> snd (FilledRandom_make rev () List 2 (initial_cache (Vector := [1, 0]))) Vector = [1, 0]"
proof -
  let ?v = "initial_cache (Vector := [1, 0])"
  have h: "length (?v Vector) = 2" "length (?v List) \<noteq> 2" "Vector \<noteq> List" "?v Vector = [1, 0]"
    by (simp_all add: initial_cache_def)
  show ?thesis
    using FilledRandom_cache_per_shape [OF permutes_rev, of ?v Vector 2 "()"]
          FilledRandom_cache_per_shape [OF permutes_rev, of ?v List 2 "()"]
          permutes_rev h
    by simp
qed

subsection \<open>Insert\<close>

lemma insert_at_0: "insert_at 0 v c = v # c"
  by (simp add: insert_at_def)

lemma insert_at_Suc: "insert_at (Suc k) v (x # xs) = x # insert_at k v xs"
  by (simp add: insert_at_def)

lemma length_insert_at: "length (insert_at k v c) = Suc (length c)"
  by (simp add: insert_at_def)

lemma set_insert_at: "set (insert_at k v c) = insert v (set c)"
proof -
  have "set (take k c) \<union> set (drop k c) = set c"
    by (metis append_take_drop_id set_append)
  then show ?thesis
    by (auto simp: insert_at_def)
qed

lemma Insert_step_spec:
  "Insert_step pad sz c i = spec_insert_before_first i (braced pad ((sz + i) mod 2 ^ 64)) c"
  by (induction c) (simp_all add: Insert_step_def Let_def insert_at_0 insert_at_Suc)

lemma length_Insert_step: "length (Insert_step pad sz c i) = Suc (length c)"
  by (simp add: Insert_step_def Let_def length_insert_at)

lemma Insert_loop_foldl:
  "i \<le> 1000 \<Longrightarrow> Insert_loop pad sz i c = foldl (Insert_step pad sz) c [i..<1000]"
proof (induction pad sz i c rule: Insert_loop.induct)
  case (1 pad sz i c)
  show ?case
  proof (cases "i < 1000")
    case True
    then have "Insert_loop pad sz i c = Insert_loop pad sz (Suc i) (Insert_step pad sz c i)"
      by (subst Insert_loop.simps) simp
    also have "\<dots> = foldl (Insert_step pad sz) (Insert_step pad sz c i) [Suc i..<1000]"
      using True by (intro "1.IH") simp_all
    also have "\<dots> = foldl (Insert_step pad sz) c [i..<1000]"
      using True by (simp add: upt_conv_Cons)
    finally show ?thesis .
  next
    case False
    with "1.prems" have "i = 1000" by simp
    then show ?thesis
      by (subst Insert_loop.simps) simp
  qed
qed

lemma length_foldl_Insert_step:
  "length (foldl (Insert_step pad sz) c is) = length c + length is"
  by (induction "is" arbitrary: c) (simp_all add: length_Insert_step)

text \<open>
  What the wording means, position by position: the sequence is split into a front
  without the identity \<open>i\<close> and a rest that is empty or starts with the identity \<open>i\<close>,
  and the new element stands between them.
\<close>

lemma spec_insert_before_first_position:
  "\<exists>pre post. c = pre @ post \<and> spec_insert_before_first i new c = pre @ new # post
      \<and> (\<forall>x \<in> set pre. a x \<noteq> i) \<and> (post = [] \<or> a (hd post) = i)"
proof (induction c)
  case Nil
  show ?case by simp
next
  case (Cons x xs)
  show ?case
  proof (cases "a x = i")
    case True
    have "x # xs = [] @ (x # xs) \<and> spec_insert_before_first i new (x # xs) = [] @ new # (x # xs)
        \<and> (\<forall>y \<in> set []. a y \<noteq> i) \<and> (x # xs = [] \<or> a (hd (x # xs)) = i)"
      using True by simp
    then show ?thesis by blast
  next
    case False
    from Cons.IH obtain pre post where p: "xs = pre @ post"
        "spec_insert_before_first i new xs = pre @ new # post"
        "\<forall>y \<in> set pre. a y \<noteq> i" "post = [] \<or> a (hd post) = i"
      by blast
    have "x # xs = (x # pre) @ post \<and> spec_insert_before_first i new (x # xs) = (x # pre) @ new # post
        \<and> (\<forall>y \<in> set (x # pre). a y \<noteq> i) \<and> (post = [] \<or> a (hd post) = i)"
      using False p by simp
    then show ?thesis by blast
  qed
qed

text \<open>
  C6. \<^verbatim>\<open>Insert::run\<close> is the 1000 operations of the specification for \<open>i = 0 .. 999\<close>:
  each inserts a new element immediately before the first element whose identity field
  equals \<open>i\<close>, or at the end if there is none; its identity is \<open>n + i\<close> computed in
  \<^verbatim>\<open>std::size_t\<close>, which is \<open>n + i\<close> for every size whose sum with 999 is representable
  (every size \<^verbatim>\<open>bench\<close> passes, an \<^verbatim>\<open>int\<close>). The length grows by exactly 1000.
\<close>

theorem Insert_run_inserts_1000:
  "length (Insert_run pad c n) = length c + 1000
   \<and> Insert_run pad c n
       = foldl (\<lambda>d i. spec_insert_before_first i (braced pad ((n + i) mod 2 ^ 64)) d) c [0..<1000]
   \<and> (n + 999 < 2 ^ 64 \<longrightarrow> Insert_run pad c n = spec_Randomized_Insert pad c n)"
proof -
  have run: "Insert_run pad c n = foldl (Insert_step pad n) c [0..<1000]"
    by (simp add: Insert_run_def Insert_loop_foldl)
  have len: "length (Insert_run pad c n) = length c + 1000"
    by (simp add: run length_foldl_Insert_step)
  have step: "Insert_step pad n = (\<lambda>d i. spec_insert_before_first i (braced pad ((n + i) mod 2 ^ 64)) d)"
    by (intro ext) (rule Insert_step_spec)
  have wrap: "Insert_run pad c n
       = foldl (\<lambda>d i. spec_insert_before_first i (braced pad ((n + i) mod 2 ^ 64)) d) c [0..<1000]"
    by (simp only: run step)
  have spec: "Insert_run pad c n = spec_Randomized_Insert pad c n" if "n + 999 < 2 ^ 64"
  proof -
    have "foldl (\<lambda>d i. spec_insert_before_first i (braced pad ((n + i) mod 2 ^ 64)) d) c [0..<1000]
        = foldl (\<lambda>d i. spec_insert_before_first i (braced pad (n + i)) d) c [0..<1000]"
    proof (rule foldl_cong [OF refl refl])
      fix d i assume "i \<in> set [0..<1000]"
      then have "n + i < 2 ^ 64"
        using that by simp
      then show "spec_insert_before_first i (braced pad ((n + i) mod 2 ^ 64)) d
          = spec_insert_before_first i (braced pad (n + i)) d"
        by simp
    qed
    then show ?thesis
      by (simp only: wrap spec_Randomized_Insert_def)
  qed
  from len wrap spec show ?thesis by blast
qed

theorem Insert_run_inserts_1000_witness:
  "(2::nat) + 999 < 2 ^ 64
   \<and> length (Insert_run () [braced () 1, braced () 0] 2) = 1002
   \<and> Insert_run () [braced () 1, braced () 0] 2 = spec_Randomized_Insert () [braced () 1, braced () 0] 2
   \<and> Insert_step () 2 [braced () 1, braced () 0] 0 = [braced () 1, braced () 2, braced () 0]
   \<and> Insert_step () 2 [braced () 1, braced () 0] 7 = [braced () 1, braced () 0, braced () 9]"
proof -
  have h: "(2::nat) + 999 < 2 ^ 64"
    by simp
  have s: "Insert_step () 2 [braced () 1, braced () 0] 0 = [braced () 1, braced () 2, braced () 0]"
      "Insert_step () 2 [braced () 1, braced () 0] 7 = [braced () 1, braced () 0, braced () 9]"
    by (simp_all add: Insert_step_def insert_at_def braced_def)
  note t = Insert_run_inserts_1000 [of "()" "[braced () 1, braced () 0]" 2]
  from t have "length (Insert_run () [braced () 1, braced () 0] 2)
      = length [braced () 1, braced () 0] + 1000"
    by (rule conjunct1)
  then have l: "length (Insert_run () [braced () 1, braced () 0] 2) = 1002"
    by simp
  from t h have r: "Insert_run () [braced () 1, braced () 0] 2
      = spec_Randomized_Insert () [braced () 1, braced () 0] 2"
    by blast
  from h l r s show ?thesis
    by (intro conjI)
qed

subsection \<open>RandomSortedInsert\<close>

lemma sorted_RandomSortedInsert_step:
  "sorted (map a c) \<Longrightarrow> sorted (map a (RandomSortedInsert_step pad c val))"
proof (induction c)
  case Nil
  show ?case
    by (simp add: RandomSortedInsert_step_def insert_at_0)
next
  case (Cons x xs)
  show ?case
  proof (cases "val \<le> a x")
    case True
    with Cons.prems show ?thesis
      by (auto simp: RandomSortedInsert_step_def insert_at_0 braced_def)
  next
    case False
    have s: "RandomSortedInsert_step pad (x # xs) val = x # RandomSortedInsert_step pad xs val"
      using False by (simp add: RandomSortedInsert_step_def insert_at_Suc)
    have "set (RandomSortedInsert_step pad xs val) = insert (braced pad val) (set xs)"
      by (simp add: RandomSortedInsert_step_def set_insert_at)
    moreover have "sorted (map a (RandomSortedInsert_step pad xs val))"
      using Cons by simp
    ultimately show ?thesis
      using Cons.prems False by (auto simp: s braced_def)
  qed
qed

lemma RandomSortedInsert_step_position:
  "RandomSortedInsert_step pad c val
     = takeWhile (\<lambda>v. a v < val) c @ braced pad val # dropWhile (\<lambda>v. a v < val) c"
  by (induction c)
     (auto simp: RandomSortedInsert_step_def insert_at_0 insert_at_Suc not_le)

lemma length_RandomSortedInsert_step:
  "length (RandomSortedInsert_step pad c val) = Suc (length c)"
  by (simp add: RandomSortedInsert_step_def length_insert_at)

lemma RandomSortedInsert_loop_invariant:
  "sorted (map a c) \<Longrightarrow> i \<le> sz \<Longrightarrow>
     sorted (map a (fst (RandomSortedInsert_loop distribution pad sz i c generator)))
   \<and> length (fst (RandomSortedInsert_loop distribution pad sz i c generator)) = length c + (sz - i)"
proof (induction distribution pad sz i c generator rule: RandomSortedInsert_loop.induct)
  case (1 distribution pad sz i c generator)
  show ?case
  proof (cases "i < sz")
    case True
    obtain val generator' where d: "distribution generator = (val, generator')"
      by (cases "distribution generator")
    have u: "RandomSortedInsert_loop distribution pad sz i c generator
        = RandomSortedInsert_loop distribution pad sz (Suc i) (RandomSortedInsert_step pad c val) generator'"
      using True d by (subst RandomSortedInsert_loop.simps) simp
    have "sorted (map a (RandomSortedInsert_step pad c val))"
      using "1.prems"(1) by (rule sorted_RandomSortedInsert_step)
    moreover have "Suc i \<le> sz"
      using True by simp
    ultimately have "sorted (map a (fst (RandomSortedInsert_loop distribution pad sz (Suc i)
            (RandomSortedInsert_step pad c val) generator')))
      \<and> length (fst (RandomSortedInsert_loop distribution pad sz (Suc i)
            (RandomSortedInsert_step pad c val) generator'))
          = length (RandomSortedInsert_step pad c val) + (sz - Suc i)"
      using "1.IH" [OF True d [symmetric]] by blast
    then show ?thesis
      using True by (simp add: u length_RandomSortedInsert_step)
  next
    case False
    then have "RandomSortedInsert_loop distribution pad sz i c generator = (c, generator)"
      by (subst RandomSortedInsert_loop.simps) simp
    with False "1.prems" show ?thesis by simp
  qed
qed

text \<open>
  The state of the loop after its first \<open>k\<close> steps is what the loop with bound \<open>k\<close>
  returns: the loop with bound \<open>sz\<close> continues from there.
\<close>

lemma RandomSortedInsert_loop_split:
  "i \<le> k \<Longrightarrow> k \<le> sz \<Longrightarrow>
     RandomSortedInsert_loop distribution pad sz i c generator
       = RandomSortedInsert_loop distribution pad sz k
           (fst (RandomSortedInsert_loop distribution pad k i c generator))
           (snd (RandomSortedInsert_loop distribution pad k i c generator))"
proof (induction distribution pad k i c generator rule: RandomSortedInsert_loop.induct)
  case (1 distribution pad k i c generator)
  show ?case
  proof (cases "i < k")
    case True
    obtain val generator' where d: "distribution generator = (val, generator')"
      by (cases "distribution generator")
    have uk: "RandomSortedInsert_loop distribution pad k i c generator
        = RandomSortedInsert_loop distribution pad k (Suc i) (RandomSortedInsert_step pad c val) generator'"
      using True d by (subst RandomSortedInsert_loop.simps) simp
    have us: "RandomSortedInsert_loop distribution pad sz i c generator
        = RandomSortedInsert_loop distribution pad sz (Suc i) (RandomSortedInsert_step pad c val) generator'"
      using True "1.prems" d by (subst RandomSortedInsert_loop.simps) simp
    have "RandomSortedInsert_loop distribution pad sz (Suc i) (RandomSortedInsert_step pad c val) generator'
        = RandomSortedInsert_loop distribution pad sz k
           (fst (RandomSortedInsert_loop distribution pad k (Suc i) (RandomSortedInsert_step pad c val) generator'))
           (snd (RandomSortedInsert_loop distribution pad k (Suc i) (RandomSortedInsert_step pad c val) generator'))"
      using True "1.prems" by (intro "1.IH" [OF True d [symmetric]]) simp_all
    then show ?thesis
      by (simp only: uk us)
  next
    case False
    with "1.prems" have "i = k" by simp
    then have "RandomSortedInsert_loop distribution pad k i c generator = (c, generator)"
      by (subst RandomSortedInsert_loop.simps) simp
    then show ?thesis
      using \<open>i = k\<close> by simp
  qed
qed

text \<open>
  C7. Started on the empty container, \<^verbatim>\<open>RandomSortedInsert::run\<close> keeps the sequence
  sorted ascending by identity field: for every \<open>k \<le> size\<close> the state after the first
  \<open>k\<close> insertion steps (from which the run continues) is sorted and has \<open>k\<close> elements, every
  single step keeps a sorted sequence sorted and puts the drawn value before the first
  element whose identity is not below it, and the result of the run is sorted and has
  exactly \<open>size\<close> elements.
\<close>

theorem RandomSortedInsert_keeps_sorted:
  assumes "k \<le> sz"
  shows "RandomSortedInsert_run distribution pad [] sz generator
           = RandomSortedInsert_loop distribution pad sz k
               (fst (RandomSortedInsert_run distribution pad [] k generator))
               (snd (RandomSortedInsert_run distribution pad [] k generator))
       \<and> sorted (map a (fst (RandomSortedInsert_run distribution pad [] k generator)))
       \<and> length (fst (RandomSortedInsert_run distribution pad [] k generator)) = k
       \<and> (sorted (map a c) \<longrightarrow> sorted (map a (RandomSortedInsert_step pad c val)))
       \<and> RandomSortedInsert_step pad c val
           = takeWhile (\<lambda>v. a v < val) c @ braced pad val # dropWhile (\<lambda>v. a v < val) c
       \<and> sorted (map a (fst (RandomSortedInsert_run distribution pad [] sz generator)))
       \<and> length (fst (RandomSortedInsert_run distribution pad [] sz generator)) = sz"
proof -
  have split: "RandomSortedInsert_run distribution pad [] sz generator
           = RandomSortedInsert_loop distribution pad sz k
               (fst (RandomSortedInsert_run distribution pad [] k generator))
               (snd (RandomSortedInsert_run distribution pad [] k generator))"
    unfolding RandomSortedInsert_run_def
    using assms by (intro RandomSortedInsert_loop_split) simp_all
  have inv: "sorted (map a (fst (RandomSortedInsert_run distribution pad [] m generator)))
       \<and> length (fst (RandomSortedInsert_run distribution pad [] m generator)) = m" for m
    unfolding RandomSortedInsert_run_def
    using RandomSortedInsert_loop_invariant [of "[]" 0 m distribution pad generator] by simp
  have step: "sorted (map a c) \<longrightarrow> sorted (map a (RandomSortedInsert_step pad c val))"
    by (simp add: sorted_RandomSortedInsert_step)
  from split inv [of k] inv [of sz] step RandomSortedInsert_step_position [of pad c val]
  show ?thesis by blast
qed

theorem RandomSortedInsert_keeps_sorted_witness:
  "(2::nat) \<le> 3
   \<and> sorted (map a (fst (RandomSortedInsert_run (\<lambda>g. ((7 * g + 5) mod 11, Suc g)) () [] 2 0)))
   \<and> fst (RandomSortedInsert_run (\<lambda>g. ((7 * g + 5) mod 11, Suc g)) () [] 3 0)
       = [braced () 1, braced () 5, braced () 8]
   \<and> sorted (map a (fst (RandomSortedInsert_run (\<lambda>g. ((7 * g + 5) mod 11, Suc g)) () [] 3 0)))
   \<and> length (fst (RandomSortedInsert_run (\<lambda>g. ((7 * g + 5) mod 11, Suc g)) () [] 3 0)) = 3"
proof -
  have h: "(2::nat) \<le> 3"
    by simp
  have e: "fst (RandomSortedInsert_run (\<lambda>g. ((7 * g + 5) mod 11, Suc g)) () [] 3 0)
       = [braced () 1, braced () 5, braced () 8]"
    by (simp add: RandomSortedInsert_run_def RandomSortedInsert_loop.simps
          RandomSortedInsert_step_def insert_at_def braced_def)
  show ?thesis
    using RandomSortedInsert_keeps_sorted [OF h, of "\<lambda>g. ((7 * g + 5) mod 11, Suc g)" "()" 0] h e
    by simp
qed

subsection \<open>Sort\<close>








lemma sorts_by_sort_key: "sorts_by (\<lambda>x y. f x < f y) (sort_key f)"
proof -
  have "sorted_wrt (\<lambda>x y. f x \<le> f y) (sort_key f xs)" for xs
    using sorted_sort_key [of f xs] by (simp only: sorted_map)
  then show ?thesis
    by (simp add: sorts_by_def not_less)
qed





subsection \<open>Rendering\<close>

lemma compute_values_keys_foldl:
  "distinct (map fst acc) \<Longrightarrow>
     distinct (map fst (foldl (\<lambda>res r. AList.update_with_aux [] (group r)
                                  (AList.update (serie r) (value' r)) res) acc rs))
   \<and> fst ` set (foldl (\<lambda>res r. AList.update_with_aux [] (group r)
                                  (AList.update (serie r) (value' r)) res) acc rs)
       = fst ` set acc \<union> group ` set rs"
proof (induction rs arbitrary: acc)
  case Nil
  then show ?case by simp
next
  case (Cons r rs)
  let ?acc = "AList.update_with_aux [] (group r) (AList.update (serie r) (value' r)) acc"
  have "distinct (map fst ?acc)"
    using Cons.prems by simp
  from Cons.IH [OF this] show ?case
    by (auto simp: dom_update_with_aux)
qed

lemma compute_values_keys:
  "distinct (map fst (compute_values g))"
  "set (map fst (compute_values g)) = group ` set (results g)"
  using compute_values_keys_foldl [of "[]" "results g"]
  by (simp_all add: compute_values_def)

lemma compute_values_Nil: "compute_values g = [] \<longleftrightarrow> results g = []"
proof -
  have "set (map fst (compute_values g)) = {} \<longleftrightarrow> group ` set (results g) = {}"
    by (simp only: compute_values_keys)
  then show ?thesis by simp
qed

lemma sorts_by_numeric_cmp:
  assumes "sorts_by (numeric_cmp atoi) srt"
  shows "mset (srt xs) = mset xs" and "sorted (map atoi (srt xs))"
proof -
  from assms show "mset (srt xs) = mset xs"
    by (simp add: sorts_by_def)
  from assms have "sorted_wrt (\<lambda>x y. \<not> numeric_cmp atoi y x) (srt xs)"
    by (simp add: sorts_by_def)
  then show "sorted (map atoi (srt xs))"
    by (simp add: sorted_map numeric_cmp_def not_less)
qed

lemma output_table_rows:
  assumes "results g \<noteq> []"
  shows "\<exists>head rows. output_table std_sort atoi g = Inr (head, rows)
           \<and> map fst rows = std_sort (numeric_cmp atoi) (map fst (compute_values g))"
proof -
  from assms obtain first rest where "compute_values g = first # rest"
    using compute_values_Nil [of g] by (cases "compute_values g") auto
  then show ?thesis
    by (simp add: output_table_def Let_def o_def)
qed

lemma output_table_sorted:
  assumes "sorts_by (numeric_cmp atoi) (std_sort (numeric_cmp atoi))"
    and "output_table std_sort atoi g = Inr t"
  shows "sorted (map atoi (map fst (snd t)))"
    and "distinct (map fst (snd t))"
    and "set (map fst (snd t)) = group ` set (results g)"
proof -
  have ne: "results g \<noteq> []"
  proof
    assume "results g = []"
    then have "compute_values g = []"
      by (simp add: compute_values_Nil)
    then have "output_table std_sort atoi g = Inl EmptyResults"
      by (simp add: output_table_def)
    with assms(2) show False by simp
  qed
  from output_table_rows [OF ne, of std_sort atoi] assms(2)
  have rows: "map fst (snd t) = std_sort (numeric_cmp atoi) (map fst (compute_values g))"
    by auto
  note c = sorts_by_numeric_cmp [OF assms(1), of "map fst (compute_values g)"]
  show "sorted (map atoi (map fst (snd t)))"
    unfolding rows by (rule c(2))
  show "distinct (map fst (snd t))"
    unfolding rows using mset_eq_imp_distinct_iff [OF c(1)] compute_values_keys(1) [of g] by simp
  show "set (map fst (snd t)) = group ` set (results g)"
    unfolding rows using mset_eq_setD [OF c(1)] compute_values_keys(2) [of g] by simp
qed

lemma output_tables_each:
  "output_tables std_sort atoi gs = Inr ts \<Longrightarrow>
     length ts = length gs \<and> (\<forall>k < length gs. output_table std_sort atoi (gs ! k) = Inr (ts ! k))"
proof (induction gs arbitrary: ts)
  case Nil
  then show ?case by simp
next
  case (Cons g gs)
  from Cons.prems obtain t ts' where t: "output_table std_sort atoi g = Inr t"
      and ts': "output_tables std_sort atoi gs = Inr ts'" and ts: "ts = t # ts'"
    by (auto split: sum.splits)
  from Cons.IH [OF ts'] t ts show ?case
    by (auto simp: nth_Cons split: nat.splits)
qed

lemma output_tables_returns:
  "(\<forall>g \<in> set gs. results g \<noteq> []) \<Longrightarrow> \<exists>ts. output_tables std_sort atoi gs = Inr ts"
proof (induction gs)
  case Nil
  show ?case by simp
next
  case (Cons g gs)
  from Cons.prems have "results g \<noteq> []" by simp
  from output_table_rows [OF this, of std_sort atoi]
  obtain t where "output_table std_sort atoi g = Inr t" by blast
  moreover from Cons obtain ts where "output_tables std_sort atoi gs = Inr ts" by auto
  ultimately show ?case by simp
qed

text \<open>
  C9. For every function \<^verbatim>\<open>atoi\<close> and every \<^verbatim>\<open>std::sort\<close> that meets the library's
  requirement for the comparison \<^verbatim>\<open>numeric_cmp\<close>: the table of a graph with results
  is written, its rows are the distinct group labels of the graph, and they come in
  ascending order of \<^verbatim>\<open>atoi\<close> of the label; so it is for every graph of \<^verbatim>\<open>all_graphs\<close>
  when the tables are written, which they are when every graph has a result. (For a graph
  without results no row is written.)
\<close>

theorem output_groups_in_numeric_order:
  assumes "sorts_by (numeric_cmp atoi) (std_sort (numeric_cmp atoi))"
  shows "(results g \<noteq> [] \<longrightarrow>
            (\<exists>head rows. output_table std_sort atoi g = Inr (head, rows)
               \<and> sorted (map atoi (map fst rows))
               \<and> distinct (map fst rows)
               \<and> set (map fst rows) = group ` set (results g)))
       \<and> (results g = [] \<longrightarrow> output_table std_sort atoi g = Inl EmptyResults)
       \<and> ((\<forall>p \<in> set (all_graphs st). results (store st ! p) \<noteq> []) \<longrightarrow>
            (\<exists>ts. output_GOOGLE std_sort atoi st = Inr ts))
       \<and> (\<forall>ts. output_GOOGLE std_sort atoi st = Inr ts \<longrightarrow>
            length ts = length (all_graphs st)
          \<and> (\<forall>k < length (all_graphs st).
                output_table std_sort atoi (store st ! (all_graphs st ! k)) = Inr (ts ! k)
              \<and> sorted (map atoi (map fst (snd (ts ! k))))))"
proof -
  have one: "\<exists>head rows. output_table std_sort atoi g = Inr (head, rows)
               \<and> sorted (map atoi (map fst rows))
               \<and> distinct (map fst rows)
               \<and> set (map fst rows) = group ` set (results g)" if "results g \<noteq> []"
  proof -
    from output_table_rows [OF that, of std_sort atoi]
    obtain head rows where t: "output_table std_sort atoi g = Inr (head, rows)" by blast
    from output_table_sorted [of atoi std_sort, OF assms t] t show ?thesis by simp
  qed
  have none: "output_table std_sort atoi g = Inl EmptyResults" if "results g = []"
  proof -
    from that have "compute_values g = []"
      by (simp add: compute_values_Nil)
    then show ?thesis
      by (simp add: output_table_def)
  qed
  have ret: "\<exists>ts. output_GOOGLE std_sort atoi st = Inr ts"
    if "\<forall>p \<in> set (all_graphs st). results (store st ! p) \<noteq> []"
    unfolding output_GOOGLE_def using that by (intro output_tables_returns) simp
  have all: "length ts = length (all_graphs st)
          \<and> (\<forall>k < length (all_graphs st).
                output_table std_sort atoi (store st ! (all_graphs st ! k)) = Inr (ts ! k)
              \<and> sorted (map atoi (map fst (snd (ts ! k)))))"
    if "output_GOOGLE std_sort atoi st = Inr ts" for ts
  proof -
    from that have e: "length ts = length (all_graphs st)"
        "\<forall>k < length (all_graphs st).
           output_table std_sort atoi (store st ! (all_graphs st ! k)) = Inr (ts ! k)"
      using output_tables_each [of std_sort atoi "map (\<lambda>p. store st ! p) (all_graphs st)" ts]
      by (simp_all add: output_GOOGLE_def)
    from e(2) output_table_sorted(1) [of atoi std_sort, OF assms]
    have "\<forall>k < length (all_graphs st). sorted (map atoi (map fst (snd (ts ! k))))"
      by blast
    with e show ?thesis by blast
  qed
  from one none ret all show ?thesis by blast
qed

theorem output_groups_in_numeric_order_witness:
  "sorts_by (numeric_cmp c_atoi) (sort_key c_atoi)
   \<and> results \<lparr>name = ''sort_8'', title = ''sort - 8 byte'', unit_of = ''ms'',
              results = [\<lparr>serie = ''vector'', group = ''10'', value' = 5\<rparr>,
                         \<lparr>serie = ''vector'', group = ''9'', value' = 3\<rparr>,
                         \<lparr>serie = ''list'', group = ''10'', value' = 7\<rparr>]\<rparr> \<noteq> []
   \<and> output_table (\<lambda>cmp. sort_key c_atoi) c_atoi
        \<lparr>name = ''sort_8'', title = ''sort - 8 byte'', unit_of = ''ms'',
         results = [\<lparr>serie = ''vector'', group = ''10'', value' = 5\<rparr>,
                    \<lparr>serie = ''vector'', group = ''9'', value' = 3\<rparr>,
                    \<lparr>serie = ''list'', group = ''10'', value' = 7\<rparr>]\<rparr>
       = Inr ([''x'', ''vector'', ''list''], [(''9'', [3]), (''10'', [5, 7])])
   \<and> sorted (map c_atoi (map fst [(''9'', [3::nat]), (''10'', [5, 7])]))
   \<and> map c_atoi [''9'', ''10''] = [9, 10]"
proof -
  let ?g = "\<lparr>name = ''sort_8'', title = ''sort - 8 byte'', unit_of = ''ms'',
         results = [\<lparr>serie = ''vector'', group = ''10'', value' = 5\<rparr>,
                    \<lparr>serie = ''vector'', group = ''9'', value' = 3\<rparr>,
                    \<lparr>serie = ''list'', group = ''10'', value' = 7\<rparr>]\<rparr>"
  have cmp: "numeric_cmp c_atoi = (\<lambda>x y. c_atoi x < c_atoi y)"
    by (intro ext) (simp add: numeric_cmp_def)
  have k: "sorts_by (numeric_cmp c_atoi) (sort_key c_atoi)"
    unfolding cmp by (rule sorts_by_sort_key)
  have ne: "results ?g \<noteq> []"
    by simp
  have v: "map c_atoi [''9'', ''10''] = [9, 10]"
    by (simp add: c_atoi_def isspace_def isdigit_def)
  have e: "output_table (\<lambda>cmp. sort_key c_atoi) c_atoi ?g
       = Inr ([''x'', ''vector'', ''list''], [(''9'', [3]), (''10'', [5, 7])])"
    using v by (simp add: output_table_def compute_values_def sort_key_def)
  from output_groups_in_numeric_order [of c_atoi "\<lambda>cmp. sort_key c_atoi" ?g, OF k] ne
  obtain head rows where "output_table (\<lambda>cmp. sort_key c_atoi) c_atoi ?g = Inr (head, rows)"
      and "sorted (map c_atoi (map fst rows))"
    by blast
  with e have s: "sorted (map c_atoi (map fst [(''9'', [3::nat]), (''10'', [5, 7])]))"
    by simp
  from k ne e s v show ?thesis
    by (intro conjI)
qed

subsection \<open>Benchmark engine\<close>

lemma digit_chars: "char_of (48::nat) = CHR ''0''" "char_of (49::nat) = CHR ''1''"
  by code_simp+

lemma bench_trials_two:
  "bench_trials create run_tests now sz 0 (s, k, d) =
     (case create sz s of (c1, s1) \<Rightarrow>
      case run_tests c1 sz s1 of (c1', s2) \<Rightarrow>
      case create sz s2 of (c2, s3) \<Rightarrow>
      case run_tests c2 sz s3 of (c2', s4) \<Rightarrow>
        (s4, k + 4,
         int64 (int64 (d + int64 (now (Suc k) - now k))
                  + int64 (now (Suc (Suc (Suc k))) - now (Suc (Suc k))))))"
  by (simp add: bench_trials.simps [of _ _ _ _ 0] bench_trials.simps [of _ _ _ _ "Suc 0"]
        bench_trials.simps [of _ _ _ _ "Suc (Suc 0)"] REPEAT_def Let_def split: prod.splits)

text \<open>
  With the accumulator at zero the value would be the mean of the two elapsed times in
  the declared unit (for elapsed times that are not negative and whose sum fits).
\<close>

lemma emitted_value_mean:
  assumes "0 \<le> e1" and "0 \<le> e2" and "e1 + e2 < 2 ^ 63" and "0 < per_unit"
  shows "int (emitted_value per_unit (int64 (int64 (0 + int64 e1) + int64 e2)))
           = ((e1 + e2) div 2) div per_unit"
proof -
  have i: "int64 x = x" if "0 \<le> x" "x < 2 ^ 63" for x
    using that by (simp add: int64_def)
  have d: "int64 (int64 (0 + int64 e1) + int64 e2) = e1 + e2"
    using assms by (simp add: i)
  have nn: "0 \<le> (e1 + e2) div per_unit"
    using assms by (simp add: pos_imp_zdiv_nonneg_iff)
  have "(e1 + e2) div per_unit \<le> (e1 + e2) div 1"
    using assms by (intro zdiv_mono2) simp_all
  then have lt: "(e1 + e2) div per_unit < 2 ^ 64"
    using assms(3) by simp
  have s: "(e1 + e2) sdiv per_unit = (e1 + e2) div per_unit"
    using assms by (simp add: signed_divide_int_def sgn_if)
  have "int (emitted_value per_unit (e1 + e2)) = ((e1 + e2) div per_unit) div 2"
    using nn lt by (simp add: emitted_value_def s REPEAT_def zdiv_int)
  also have "\<dots> = (e1 + e2) div (per_unit * 2)"
    by (simp add: zdiv_zmult2_eq)
  also have "\<dots> = ((e1 + e2) div 2) div per_unit"
    using assms(4) zdiv_zmult2_eq [of per_unit "e1 + e2" 2] by (simp add: mult.commute)
  finally show ?thesis
    by (simp only: d)
qed

text \<open>
  C1. \<^verbatim>\<open>bench\<close> runs two trials for a size and emits one sample, but the accumulation
  starts from the indeterminate content of the uninitialised \<^verbatim>\<open>duration\<close>, not from
  zero. Here both trials take no time (every clock reading is 0) and the accumulator
  holds 2000000 ticks when the loop starts: the sample emitted for the size 1000 in
  microseconds is 1000, while the mean of the two elapsed times is 0.
\<close>

theorem bench_accumulates_from_indeterminate_duration:
  "bench Empty_make NoOp_run (\<lambda>k. 0) 1000 ''vector'' [1000] (\<lambda>j. 2000000) 0
       ((), 0, new_graph ''fill_back_8'' ''fill_back - 8 byte'' ''us'' initial_graphs)
     = Inr ((), 4,
            \<lparr>store = [\<lparr>name = ''fill_back_8'', title = ''fill_back - 8 byte'', unit_of = ''us'',
                       results = [\<lparr>serie = ''vector'', group = ''1000'', value' = 1000\<rparr>]\<rparr>],
             current_graph = Some 0, all_graphs = [0],
             console = [''Start fill_back_8'', ''vector:1000:1000'']\<rparr>)
   \<and> emitted_value 1000 (int64 (int64 (0 + int64 0) + int64 0)) = 0"
  by (simp add: bench_size_def bench_trials_two Empty_make_def NoOp_run_def size_t_def int64_def
        emitted_value_def REPEAT_def signed_divide_int_def new_result_def new_graph_def
        initial_graphs_def to_string_def digits.simps digit_chars)

end
